theory Spec2Isabelle
  imports Complex_Main "HOL-Library.AList"
begin

section \<open>JavaScript values and string operations used by the client\<close>

text \<open>
  Everything one handler can throw. \<open>SyntaxError\<close> is what \<open>JSON.parse\<close> raises,
  \<open>TypeError\<close> what a property read on \<open>null\<close>/\<open>undefined\<close> raises; the other three are
  rejections of the Redis client, of the Bull queue and of the Telegram API.
\<close>

datatype exn = SyntaxError | TypeError | RedisError | QueueError | TelegramError

text \<open>
  The values \<open>JSON.parse\<close> can return, plus \<open>undefined\<close> (the result of reading a property
  that is absent). Numbers are doubles in JavaScript; the handlers only compare one with \<open>0\<close>
  and test truthiness, so rationals stand for them.
\<close>

datatype jsval =
    JUndefined
  | JNull
  | JBool bool
  | JNum rat
  | JStr string
  | JArr "jsval list"
  | JObj "(string \<times> jsval) list"

text \<open>\<open>v.name\<close> for the property names the handlers read (none of them is a built-in property).\<close>

definition getProp :: "jsval \<Rightarrow> string \<Rightarrow> exn + jsval" where
  "getProp v name =
     (case v of
        JUndefined \<Rightarrow> Inl TypeError
      | JNull \<Rightarrow> Inl TypeError
      | JObj props \<Rightarrow> (case map_of props name of Some x \<Rightarrow> Inr x | None \<Rightarrow> Inr JUndefined)
      | _ \<Rightarrow> Inr JUndefined)"

text \<open>JavaScript truthiness, as \<open>!v\<close> tests it.\<close>

definition truthy :: "jsval \<Rightarrow> bool" where
  "truthy v =
     (case v of
        JUndefined \<Rightarrow> False
      | JNull \<Rightarrow> False
      | JBool b \<Rightarrow> b
      | JNum n \<Rightarrow> n \<noteq> 0
      | JStr s \<Rightarrow> s \<noteq> []
      | _ \<Rightarrow> True)"

text \<open>\<open>s.startsWith(p)\<close> and \<open>s.endsWith(p)\<close>.\<close>

definition startsWith :: "string \<Rightarrow> string \<Rightarrow> bool" where
  "startsWith s p \<longleftrightarrow> take (length p) s = p"

definition endsWith :: "string \<Rightarrow> string \<Rightarrow> bool" where
  "endsWith s p \<longleftrightarrow> length p \<le> length s \<and> drop (length s - length p) s = p"

text \<open>\<open>s.replace(pat, rep)\<close> with a string pattern: only the first occurrence is replaced.\<close>

fun replace_first :: "string \<Rightarrow> string \<Rightarrow> string \<Rightarrow> string" where
  "replace_first [] pat rep = (if pat = [] then rep else [])"
| "replace_first (c # cs) pat rep =
     (if startsWith (c # cs) pat then rep @ drop (length pat) (c # cs)
      else c # replace_first cs pat rep)"

text \<open>\<open>s.split(sep)\<close> for a one-character separator.\<close>

fun split_on :: "char \<Rightarrow> string \<Rightarrow> string list" where
  "split_on sep [] = [[]]"
| "split_on sep (c # cs) =
     (if c = sep then [] # split_on sep cs
      else (case split_on sep cs of
              [] \<Rightarrow> [[c]]
            | p # ps \<Rightarrow> (c # p) # ps))"

text \<open>\<open>xs[i]\<close>: \<open>undefined\<close> (here \<open>None\<close>) out of range.\<close>

definition index :: "'a list \<Rightarrow> nat \<Rightarrow> 'a option" where
  "index xs i = (if i < length xs then Some (xs ! i) else None)"

section \<open>Destination identifier\<close>

text \<open>
  The expression shared by the permission checker, the sentiment service and the
  \<open>start\<close> command:
  \<^verbatim>\<open>groupId.startsWith("-100") ? groupId : `-100${groupId.replace("-", "")}`\<close>
\<close>

definition formatGroupId :: "string \<Rightarrow> string" where
  "formatGroupId groupId =
     (if startsWith groupId ''-100'' then groupId
      else ''-100'' @ replace_first groupId ''-'' '''')"

text \<open>The specification's wording of the second branch: a leading sign, if any, is dropped.\<close>

definition strip_leading_sign :: "string \<Rightarrow> string" where
  "strip_leading_sign s =
     (case s of
        [] \<Rightarrow> []
      | c # cs \<Rightarrow> if c = CHR ''-'' then cs else c # cs)"

section \<open>The world the handlers act on\<close>

text \<open>What the Telegram API reports for a chat member.\<close>

record user =
  is_bot :: bool

record member =
  status :: string
  user :: user

text \<open>Every \<open>elizaLogger\<close> call of the two handlers, with the values it interpolates.\<close>

datatype logline =
    WarnGroupIdNotSet
  | LogCheckingPermissions nat string
  | LogFormattedGroupId string
  | WarnNoPermissions string
  | LogProcessingUser "string option" jsval
  | LogMemberStatus "string option" string
  | LogSkippingCheck string "string option"
  | LogRemovedBot "string option"
  | LogRemovedUser "string option"
  | ErrCheckingMember "string option" exn
  | ErrDetails exn
  | ErrProcessingKey string exn
  | ErrPermissionCheck exn
  | WarnSentimentGroupIdNotSet
  | LogSentimentInitialized
  | ErrProcessingSentiment exn
  | ErrSendSentiment exn
  | LogStoppingSentiment

text \<open>
  Calls to the collaborators, in the order the handlers issue them. A user id is
  \<open>userKey.split(":")[1]\<close>, hence possibly \<open>undefined\<close> (\<open>None\<close>).
\<close>

datatype event =
    Log logline
  | QueueAdd string nat
  | RedisKeys string
  | RedisGet string
  | RedisDel string
  | Subscribe string
  | Unsubscribe string
  | GetChatMember string "string option"
  | BanChatMember string "string option"
  | SendMessage string string

text \<open>
  The store holds the string keys of the Redis instance, \<open>channels\<close> the channels the
  subscriber connection is subscribed to, \<open>trace\<close> the calls made so far (oldest first).
\<close>

record world =
  store :: "(string \<times> string) list"
  channels :: "string list"
  trace :: "event list"

text \<open>
  What the handlers read from outside and cannot control: configuration, the clock, whether
  a call to the store, the queue or the subscriber connection is answered, the answers of the
  Telegram API, and \<open>JSON.parse\<close>. An answer depends on the arguments of the call only:
  during one run of a handler the platform answers the same question the same way.
  \<open>formatUpdateMessage\<close> renders floating-point percentages with \<open>toFixed\<close>; it is
  taken as a parameter, which may also throw.
\<close>

record env =
  setting_PRIVATE_GROUP_ID :: "string option"
  process_env_PRIVATE_GROUP_ID :: "string option"
  now :: nat
  queue_add_ok :: bool
  redis_keys_ok :: bool
  redis_get_ok :: "string \<Rightarrow> bool"
  redis_del_ok :: "string \<Rightarrow> bool"
  subscriber_ok :: bool
  JSON_parse :: "string \<Rightarrow> jsval option"
  getChatMember :: "string \<Rightarrow> string option \<Rightarrow> member option"
  banChatMember :: "string \<Rightarrow> string option \<Rightarrow> bool"
  sendMessage :: "string \<Rightarrow> string \<Rightarrow> bool"
  formatUpdateMessage :: "jsval \<Rightarrow> exn + string"

subsection \<open>Statements that may throw\<close>

type_synonym 'a prog = "world \<Rightarrow> (exn + 'a) \<times> world"

definition done_with :: "'a \<Rightarrow> 'a prog" where
  "done_with v w = (Inr v, w)"

definition throw :: "exn \<Rightarrow> 'a prog" where
  "throw e w = (Inl e, w)"

text \<open>
  Sequencing, \<open>const x = await m; k x\<close>: a rejection of \<open>m\<close> skips \<open>k\<close>, and so does
  a synchronous statement \<open>m\<close> that throws.
\<close>

definition await :: "'a prog \<Rightarrow> ('a \<Rightarrow> 'b prog) \<Rightarrow> 'b prog" where
  "await m k w = (case m w of (Inl e, w') \<Rightarrow> (Inl e, w') | (Inr v, w') \<Rightarrow> k v w')"

text \<open>\<open>try { body } catch (error) { handler }\<close>.\<close>

definition try_catch :: "'a prog \<Rightarrow> (exn \<Rightarrow> 'a prog) \<Rightarrow> 'a prog" where
  "try_catch body handler w =
     (case body w of (Inl e, w') \<Rightarrow> handler e w' | (Inr v, w') \<Rightarrow> (Inr v, w'))"

definition emit :: "event \<Rightarrow> unit prog" where
  "emit e w = (Inr (), w\<lparr>trace := trace w @ [e]\<rparr>)"

definition elizaLogger :: "logline \<Rightarrow> unit prog" where
  "elizaLogger l = emit (Log l)"

text \<open>
  A promise that is started and not awaited: its rejection does not reach the caller.
\<close>

definition unawaited :: "unit prog \<Rightarrow> unit prog" where
  "unawaited m w = (Inr (), snd (m w))"

text \<open>A synchronous expression that may throw.\<close>

definition attempt :: "exn + 'a \<Rightarrow> 'a prog" where
  "attempt r w = (case r of Inl e \<Rightarrow> (Inl e, w) | Inr v \<Rightarrow> (Inr v, w))"

subsection \<open>The collaborators\<close>

text \<open>
  \<open>KEYS user:*:permissions\<close>: the star of a Redis glob matches any run of characters, the
  empty one included. Each key of the store is reported once.
\<close>

definition matches_permissions :: "string \<Rightarrow> bool" where
  "matches_permissions k \<longleftrightarrow>
     startsWith k ''user:'' \<and> endsWith k '':permissions''
     \<and> length ''user:'' + length '':permissions'' \<le> length k"

definition scan_permissions :: "(string \<times> string) list \<Rightarrow> string list" where
  "scan_permissions s = remdups (filter matches_permissions (map fst s))"

definition redis_keys :: "env \<Rightarrow> string list prog" where
  "redis_keys env =
     await (emit (RedisKeys ''user:*:permissions'')) (\<lambda>_ w.
       if redis_keys_ok env then (Inr (scan_permissions (store w)), w)
       else (Inl RedisError, w))"

definition redis_get :: "env \<Rightarrow> string \<Rightarrow> string option prog" where
  "redis_get env key =
     await (emit (RedisGet key)) (\<lambda>_ w.
       if redis_get_ok env key then (Inr (map_of (store w) key), w)
       else (Inl RedisError, w))"

definition redis_del :: "env \<Rightarrow> string \<Rightarrow> unit prog" where
  "redis_del env key =
     await (emit (RedisDel key)) (\<lambda>_ w.
       if redis_del_ok env key then (Inr (), w\<lparr>store := AList.delete key (store w)\<rparr>)
       else (Inl RedisError, w))"

definition queue_add :: "env \<Rightarrow> string \<Rightarrow> nat \<Rightarrow> unit prog" where
  "queue_add env groupId timestamp =
     await (emit (QueueAdd groupId timestamp)) (\<lambda>_.
       if queue_add_ok env then done_with () else throw QueueError)"

definition telegram_getChatMember :: "env \<Rightarrow> string \<Rightarrow> string option \<Rightarrow> member prog" where
  "telegram_getChatMember env chatId userId =
     await (emit (GetChatMember chatId userId)) (\<lambda>_.
       case getChatMember env chatId userId of
         None \<Rightarrow> throw TelegramError
       | Some m \<Rightarrow> done_with m)"

definition telegram_banChatMember :: "env \<Rightarrow> string \<Rightarrow> string option \<Rightarrow> unit prog" where
  "telegram_banChatMember env chatId userId =
     await (emit (BanChatMember chatId userId)) (\<lambda>_.
       if banChatMember env chatId userId then done_with () else throw TelegramError)"

definition telegram_sendMessage :: "env \<Rightarrow> string \<Rightarrow> string \<Rightarrow> unit prog" where
  "telegram_sendMessage env chatId text =
     await (emit (SendMessage chatId text)) (\<lambda>_.
       if sendMessage env chatId text then done_with () else throw TelegramError)"

text \<open>
  \<open>SUBSCRIBE\<close> and \<open>UNSUBSCRIBE\<close> on the subscriber connection. Redis answers an
  \<open>UNSUBSCRIBE\<close> of a channel that is not subscribed like any other; the client rejects
  only when the connection cannot be used.
\<close>

definition subscriber_subscribe :: "env \<Rightarrow> string \<Rightarrow> unit prog" where
  "subscriber_subscribe env channel =
     await (emit (Subscribe channel)) (\<lambda>_ w.
       if subscriber_ok env
       then (Inr (), w\<lparr>channels := List.insert channel (channels w)\<rparr>)
       else (Inl RedisError, w))"

definition subscriber_unsubscribe :: "env \<Rightarrow> string \<Rightarrow> unit prog" where
  "subscriber_unsubscribe env channel =
     await (emit (Unsubscribe channel)) (\<lambda>_ w.
       if subscriber_ok env
       then (Inr (), w\<lparr>channels := removeAll channel (channels w)\<rparr>)
       else (Inl RedisError, w))"

definition JSON_parse_call :: "env \<Rightarrow> string \<Rightarrow> jsval prog" where
  "JSON_parse_call env text =
     (case JSON_parse env text of None \<Rightarrow> throw SyntaxError | Some v \<Rightarrow> done_with v)"

section \<open>The permission checker\<close>

text \<open>
  \<open>TelegramClient.setupPermissionChecker\<close> hands one anonymous callback to \<open>setInterval\<close>.
  Its nested blocks are named here, innermost first: \<open>checkMember\<close> is the inner
  \<open>try\<close> block, \<open>processKey_try\<close> the body of the per-key \<open>try\<close>, \<open>processKey\<close> one
  iteration with its \<open>catch\<close>, \<open>processKeys\<close> the \<open>for\<close> loop, \<open>tick_try\<close> the
  body of the outermost \<open>try\<close> and \<open>tick\<close> the whole callback.
\<close>

text \<open>How a block inside the \<open>for\<close> loop ends: by falling through, or by \<open>continue\<close>.\<close>

datatype flow = Next | Continue

text \<open>The inner \<open>try\<close> block: look the member up, then decide.\<close>

definition checkMember :: "env \<Rightarrow> string \<Rightarrow> string option \<Rightarrow> jsval \<Rightarrow> flow prog" where
  "checkMember env formattedGroupId userId data =
     await (telegram_getChatMember env formattedGroupId userId) (\<lambda>member.
     await (elizaLogger (LogMemberStatus userId (status member))) (\<lambda>_.
       if status member = ''creator'' \<or> status member = ''administrator'' then
         await (elizaLogger (LogSkippingCheck (status member) userId)) (\<lambda>_.
         done_with Continue)
       else if is_bot (user member) then
         await (telegram_banChatMember env formattedGroupId userId) (\<lambda>_.
         await (elizaLogger (LogRemovedBot userId)) (\<lambda>_.
         done_with Continue))
       else
         await (attempt (getProp data ''hasRequiredBalance'')) (\<lambda>hasRequiredBalance.
           if \<not> truthy hasRequiredBalance then
             await (telegram_banChatMember env formattedGroupId userId) (\<lambda>_.
             await (elizaLogger (LogRemovedUser userId)) (\<lambda>_.
             done_with Next))
           else done_with Next)))"

text \<open>
  The body of the per-key \<open>try\<close> block. Both \<open>continue\<close> statements of the inner block
  and the one after the warning leave the iteration before \<open>redis.del\<close>; an exception caught
  by the inner \<open>catch\<close> does not.
\<close>

definition processKey_try :: "env \<Rightarrow> string \<Rightarrow> string \<Rightarrow> flow prog" where
  "processKey_try env formattedGroupId userKey =
     await (redis_get env userKey) (\<lambda>permissions.
       if permissions = None \<or> permissions = Some [] then
         await (elizaLogger (WarnNoPermissions userKey)) (\<lambda>_.
         done_with Continue)
       else
         await (JSON_parse_call env (the permissions)) (\<lambda>data.
         let userId = index (split_on CHR '':'' userKey) 1 in
         await (elizaLogger (LogProcessingUser userId data)) (\<lambda>_.
         await (try_catch (checkMember env formattedGroupId userId data)
                  (\<lambda>error.
                     await (elizaLogger (ErrCheckingMember userId error)) (\<lambda>_.
                     await (elizaLogger (ErrDetails error)) (\<lambda>_.
                     done_with Next)))) (\<lambda>fl.
           case fl of
             Continue \<Rightarrow> done_with Continue
           | Next \<Rightarrow> await (redis_del env userKey) (\<lambda>_. done_with Next)))))"

text \<open>One iteration of the loop: the per-key \<open>try\<close> with its \<open>catch\<close>.\<close>

definition processKey :: "env \<Rightarrow> string \<Rightarrow> string \<Rightarrow> flow prog" where
  "processKey env formattedGroupId userKey =
     try_catch (processKey_try env formattedGroupId userKey)
       (\<lambda>error. await (elizaLogger (ErrProcessingKey userKey error)) (\<lambda>_. done_with Next))"

text \<open>\<open>for (const userKey of users) { ... }\<close>\<close>

fun processKeys :: "env \<Rightarrow> string \<Rightarrow> string list \<Rightarrow> unit prog" where
  "processKeys env formattedGroupId [] w = (Inr (), w)"
| "processKeys env formattedGroupId (userKey # users) w =
     (case processKey env formattedGroupId userKey w of
        (Inl e, w') \<Rightarrow> (Inl e, w')
      | (Inr _, w') \<Rightarrow> processKeys env formattedGroupId users w')"

text \<open>The body of the outer \<open>try\<close> of the timer callback.\<close>

definition tick_try :: "env \<Rightarrow> unit prog" where
  "tick_try env =
     (let groupId = setting_PRIVATE_GROUP_ID env in
      if groupId = None \<or> groupId = Some [] then
        await (elizaLogger WarnGroupIdNotSet) (\<lambda>_. done_with ())
      else
        await (queue_add env (the groupId) (now env)) (\<lambda>_.
        await (redis_keys env) (\<lambda>users.
        await (elizaLogger (LogCheckingPermissions (length users) (the groupId))) (\<lambda>_.
        let formattedGroupId = formatGroupId (the groupId) in
        await (elizaLogger (LogFormattedGroupId formattedGroupId)) (\<lambda>_.
        processKeys env formattedGroupId users)))))"

text \<open>The callback \<open>setInterval\<close> runs every 60 seconds.\<close>

definition tick :: "env \<Rightarrow> unit prog" where
  "tick env =
     try_catch (tick_try env)
       (\<lambda>error. await (elizaLogger (ErrPermissionCheck error)) (\<lambda>_. done_with ()))"

section \<open>The sentiment service\<close>

text \<open>
  \<open>SentimentService\<close> of \<open>sentiment.ts\<close>: the version that reads
  \<open>update.metadata.significantTweetsCount\<close> and has a \<open>stop\<close> method.
\<close>

record SentimentService =
  privateGroupId :: string

definition broadcastUpdate :: "env \<Rightarrow> SentimentService \<Rightarrow> jsval \<Rightarrow> unit prog" where
  "broadcastUpdate env this update =
     await (attempt (getProp update ''metadata'')) (\<lambda>metadata.
     await (attempt (getProp metadata ''significantTweetsCount'')) (\<lambda>significantTweetsCount.
       if significantTweetsCount = JNum 0 \<or> privateGroupId this = [] then done_with ()
       else
         await (attempt (formatUpdateMessage env update)) (\<lambda>message.
         try_catch
           (let formattedGroupId = formatGroupId (privateGroupId this) in
            telegram_sendMessage env formattedGroupId message)
           (\<lambda>error. elizaLogger (ErrSendSentiment error)))))"

text \<open>The listener \<open>setupSubscriber\<close> installs for \<open>"message"\<close>.\<close>

definition onMessage :: "env \<Rightarrow> SentimentService \<Rightarrow> string \<Rightarrow> string \<Rightarrow> unit prog" where
  "onMessage env this channel message =
     (if channel = ''sentiment:updates'' then
        try_catch
          (await (JSON_parse_call env message) (\<lambda>update.
           broadcastUpdate env this update))
          (\<lambda>error. elizaLogger (ErrProcessingSentiment error))
      else done_with ())"

text \<open>
  \<open>setupSubscriber\<close> subscribes without awaiting the answer and installs \<open>onMessage\<close>
  as the listener.
\<close>

definition setupSubscriber :: "env \<Rightarrow> unit prog" where
  "setupSubscriber env = unawaited (subscriber_subscribe env ''sentiment:updates'')"

text \<open>The constructor: \<open>process.env.PRIVATE_GROUP_ID?.toString() || ''\<close>, then subscribe.\<close>

definition new_SentimentService :: "env \<Rightarrow> SentimentService prog" where
  "new_SentimentService env =
     (let this = \<lparr>privateGroupId =
                   (case process_env_PRIVATE_GROUP_ID env of None \<Rightarrow> [] | Some s \<Rightarrow> s)\<rparr> in
      await (if privateGroupId this = [] then elizaLogger WarnSentimentGroupIdNotSet
             else done_with ()) (\<lambda>_.
      await (setupSubscriber env) (\<lambda>_.
      await (elizaLogger LogSentimentInitialized) (\<lambda>_.
      done_with this))))"

definition stop :: "env \<Rightarrow> unit prog" where
  "stop env =
     await (elizaLogger LogStoppingSentiment) (\<lambda>_.
     subscriber_unsubscribe env ''sentiment:updates'')"

section \<open>Observing one run\<close>

text \<open>The calls made between two worlds, and those one tick makes.\<close>

definition events_since :: "world \<Rightarrow> world \<Rightarrow> event list" where
  "events_since w w' = drop (length (trace w)) (trace w')"

definition tick_events :: "env \<Rightarrow> world \<Rightarrow> event list" where
  "tick_events env w = events_since w (snd (tick env w))"

text \<open>The user a permission key names: \<open>userKey.split(":")[1]\<close>.\<close>

definition userId_of :: "string \<Rightarrow> string option" where
  "userId_of userKey = index (split_on CHR '':'' userKey) 1"

section \<open>A concrete deployment\<close>

text \<open>
  A group configured as \<open>123456\<close> with six pending records: two ordinary members (one
  without the required balance), an administrator, a bot, a user whose lookup the
  Telegram API rejects, and a record that is not JSON. \<open>demo_parse\<close> agrees with
  \<open>JSON.parse\<close> on the payloads that occur below.
\<close>

definition demo_parse :: "string \<Rightarrow> jsval option" where
  \<open>demo_parse text =
     (if text = ''{"hasRequiredBalance":false}'' then Some (JObj [(''hasRequiredBalance'', JBool False)])
      else if text = ''{"hasRequiredBalance":true}'' then Some (JObj [(''hasRequiredBalance'', JBool True)])
      else if text = ''{"metadata":{"significantTweetsCount":0}}''
        then Some (JObj [(''metadata'', JObj [(''significantTweetsCount'', JNum 0)])])
      else if text = ''{"metadata":{"significantTweetsCount":2}}''
        then Some (JObj [(''metadata'', JObj [(''significantTweetsCount'', JNum 2)])])
      else None)\<close>

definition demo_members :: "string \<Rightarrow> string option \<Rightarrow> member option" where
  "demo_members chatId userId =
     (if chatId \<noteq> ''-100123456'' then None
      else if userId = Some ''111'' \<or> userId = Some ''222''
        then Some \<lparr>status = ''member'', user = \<lparr>is_bot = False\<rparr>\<rparr>
      else if userId = Some ''333''
        then Some \<lparr>status = ''administrator'', user = \<lparr>is_bot = False\<rparr>\<rparr>
      else if userId = Some ''444''
        then Some \<lparr>status = ''member'', user = \<lparr>is_bot = True\<rparr>\<rparr>
      else None)"

definition demo_env :: env where
  "demo_env =
     \<lparr>setting_PRIVATE_GROUP_ID = Some ''123456'',
      process_env_PRIVATE_GROUP_ID = Some ''123456'',
      now = 1700,
      queue_add_ok = True,
      redis_keys_ok = True,
      redis_get_ok = (\<lambda>_. True),
      redis_del_ok = (\<lambda>_. True),
      subscriber_ok = True,
      JSON_parse = demo_parse,
      getChatMember = demo_members,
      banChatMember = (\<lambda>_ _. True),
      sendMessage = (\<lambda>_ _. True),
      formatUpdateMessage = (\<lambda>_. Inr ''Sentiment Analysis Update'')\<rparr>"

definition demo_world :: world where
  \<open>demo_world =
     \<lparr>store =
        [(''user:111:permissions'', ''{"hasRequiredBalance":false}''),
         (''user:222:permissions'', ''{"hasRequiredBalance":true}''),
         (''user:333:permissions'', ''{"hasRequiredBalance":false}''),
         (''user:444:permissions'', ''{"hasRequiredBalance":true}''),
         (''user:555:permissions'', ''{"hasRequiredBalance":true}''),
         (''user:666:permissions'', ''{"hasRequiredBalance":'')],
      channels = [''sentiment:updates''],
      trace = []\<rparr>\<close>

text \<open>The same deployment with the keys stored, hence scanned, in the opposite order.\<close>

definition demo_world_reversed :: world where
  "demo_world_reversed = demo_world\<lparr>store := rev (store demo_world)\<rparr>"

definition demo_service :: SentimentService where
  "demo_service = \<lparr>privateGroupId = ''123456''\<rparr>"

section \<open>Basic facts\<close>

lemmas prog_defs = await_def try_catch_def emit_def elizaLogger_def attempt_def done_with_def throw_def
lemmas io_defs = redis_get_def redis_del_def redis_keys_def queue_add_def telegram_getChatMember_def
  telegram_banChatMember_def telegram_sendMessage_def JSON_parse_call_def
lemmas key_defs = processKey_def processKey_try_def checkMember_def

lemmas demo_defs = demo_env_def demo_world_def demo_members_def demo_parse_def demo_service_def

subsection \<open>The destination identifier\<close>

lemma replace_first_absent:
  "CHR ''-'' \<notin> set s \<Longrightarrow> replace_first s ''-'' '''' = s"
  by (induction s) (auto simp: startsWith_def)

lemma replace_first_leading_sign:
  assumes "CHR ''-'' \<notin> set (tl s)"
  shows "replace_first s ''-'' '''' = strip_leading_sign s"
proof (cases s)
  case Nil
  then show ?thesis by (simp add: strip_leading_sign_def)
next
  case (Cons c cs)
  with assms have "CHR ''-'' \<notin> set cs" by simp
  then have "replace_first cs ''-'' '''' = cs" by (rule replace_first_absent)
  with Cons show ?thesis by (simp add: strip_leading_sign_def startsWith_def)
qed

text \<open>Every key the scan reports names a user: the index is in range.\<close>

lemma split_on_nonempty: "split_on c s \<noteq> []"
  by (induction s) (auto split: list.splits)

lemma length_split_on: "length (split_on c s) = Suc (length (filter (\<lambda>x. x = c) s))"
  by (induction s) (auto simp: split_on_nonempty split: list.splits)

lemma scanned_key_has_userId:
  assumes "matches_permissions k"
  shows "\<exists>u. userId_of k = Some u"
proof -
  from assms have "take (length ''user:'') k = ''user:''"
    by (simp only: matches_permissions_def startsWith_def)
  then have "CHR '':'' \<in> set (take (length ''user:'') k)" by simp
  then have "CHR '':'' \<in> set k" by (rule in_set_takeD)
  then have "filter (\<lambda>x. x = CHR '':'') k \<noteq> []"
    by (simp add: filter_empty_conv)
  then have "1 < length (split_on CHR '':'' k)"
    by (cases "filter (\<lambda>x. x = CHR '':'') k") (simp_all add: length_split_on)
  then show ?thesis by (simp add: userId_of_def index_def)
qed

subsection \<open>One key, then the loop\<close>

lemma events_since_append [simp]: "trace w' = trace w @ es \<Longrightarrow> events_since w w' = es"
  by (simp add: events_since_def)

lemma events_since_trans:
  assumes "trace w' = trace w @ es" and "trace w'' = trace w' @ es'"
  shows "events_since w w'' = events_since w w' @ events_since w' w''"
  using assms by (simp add: events_since_def)

lemma processKey_returns: "\<exists>fl. fst (processKey env g k w) = Inr fl"
  unfolding key_defs
  by (auto simp: prog_defs io_defs Let_def split: option.splits sum.splits prod.splits flow.splits if_splits)

lemma processKey_trace: "\<exists>es. trace (snd (processKey env g k w)) = trace w @ es"
  unfolding key_defs
  by (auto simp: prog_defs io_defs Let_def split: option.splits sum.splits prod.splits flow.splits if_splits)

lemma processKey_store:
  "store (snd (processKey env g k w)) = store w
   \<or> store (snd (processKey env g k w)) = AList.delete k (store w)"
  unfolding key_defs
  by (auto simp: prog_defs io_defs Let_def split: option.splits sum.splits prod.splits flow.splits if_splits)

lemma processKey_ban:
  assumes "BanChatMember g' u \<in> set (events_since w (snd (processKey env g k w)))"
  shows "g' = g \<and> u = userId_of k \<and>
    (\<exists>m. getChatMember env g u = Some m \<and> status m \<noteq> ''creator'' \<and> status m \<noteq> ''administrator'')"
  using assms unfolding key_defs userId_of_def events_since_def
  by (auto simp: prog_defs io_defs Let_def split: option.splits sum.splits prod.splits flow.splits if_splits)

lemma processKey_store_other:
  "k' \<noteq> k \<Longrightarrow> map_of (store (snd (processKey env g k w))) k' = map_of (store w) k'"
  using processKey_store [of env g k w] by (auto simp: delete_conv)

lemma processKey_store_gone:
  "map_of (store w) k' = None \<Longrightarrow> map_of (store (snd (processKey env g k w))) k' = None"
  using processKey_store [of env g k w] by (auto simp: delete_conv)

lemma processKeys_returns: "fst (processKeys env g ks w) = Inr ()"
proof (induction ks arbitrary: w)
  case Nil
  show ?case by simp
next
  case (Cons k ks)
  obtain r w' where step: "processKey env g k w = (r, w')" by (cases "processKey env g k w")
  with processKey_returns [of env g k w] obtain fl where "r = Inr fl" by auto
  with step Cons.IH [of w'] show ?case by simp
qed

lemma processKeys_Cons:
  "processKeys env g (k # ks) w = processKeys env g ks (snd (processKey env g k w))"
proof -
  obtain r w' where step: "processKey env g k w = (r, w')" by (cases "processKey env g k w")
  with processKey_returns [of env g k w] obtain fl where "r = Inr fl" by auto
  with step show ?thesis by simp
qed

lemma processKeys_trace: "\<exists>es. trace (snd (processKeys env g ks w)) = trace w @ es"
proof (induction ks arbitrary: w)
  case Nil
  show ?case by simp
next
  case (Cons k ks)
  obtain es where a: "trace (snd (processKey env g k w)) = trace w @ es"
    using processKey_trace by blast
  obtain es' where "trace (snd (processKeys env g ks (snd (processKey env g k w))))
      = trace (snd (processKey env g k w)) @ es'"
    using Cons.IH by blast
  with a show ?case by (simp add: processKeys_Cons del: processKeys.simps(2))
qed

lemma processKeys_store_other:
  "k' \<notin> set ks \<Longrightarrow> map_of (store (snd (processKeys env g ks w))) k' = map_of (store w) k'"
  by (induction ks arbitrary: w) (simp_all add: processKeys_Cons processKey_store_other del: processKeys.simps(2))

lemma processKeys_store_gone:
  "map_of (store w) k' = None \<Longrightarrow> map_of (store (snd (processKeys env g ks w))) k' = None"
  by (induction ks arbitrary: w) (simp_all add: processKeys_Cons processKey_store_gone del: processKeys.simps(2))

lemma processKeys_events_Cons:
  "events_since w (snd (processKeys env g (k # ks) w)) =
     events_since w (snd (processKey env g k w))
     @ events_since (snd (processKey env g k w)) (snd (processKeys env g ks (snd (processKey env g k w))))"
proof -
  obtain es where a: "trace (snd (processKey env g k w)) = trace w @ es"
    using processKey_trace by blast
  obtain es' where b: "trace (snd (processKeys env g ks (snd (processKey env g k w))))
      = trace (snd (processKey env g k w)) @ es'"
    using processKeys_trace by blast
  show ?thesis
    unfolding processKeys_Cons by (rule events_since_trans [OF a b])
qed

lemma processKeys_ban:
  assumes "BanChatMember g' u \<in> set (events_since w (snd (processKeys env g ks w)))"
  shows "g' = g \<and>
    (\<exists>m. getChatMember env g u = Some m \<and> status m \<noteq> ''creator'' \<and> status m \<noteq> ''administrator'')"
  using assms
proof (induction ks arbitrary: w)
  case Nil
  then show ?case by (simp add: events_since_def)
next
  case (Cons k ks)
  then show ?case
    unfolding processKeys_events_Cons using processKey_ban by fastforce
qed

lemma processKeys_split:
  assumes "k \<in> set ks" and "distinct ks"
  shows "\<exists>w1 ks2 es. map_of (store w1) k = map_of (store w) k \<and> trace w1 = trace w @ es
           \<and> k \<notin> set ks2
           \<and> processKeys env g ks w = processKeys env g ks2 (snd (processKey env g k w1))"
  using assms
proof (induction ks arbitrary: w)
  case Nil
  then show ?case by simp
next
  case (Cons k' ks)
  show ?case
  proof (cases "k' = k")
    case True
    with Cons.prems have "k \<notin> set ks" by simp
    with True show ?thesis
      using processKeys_Cons [of env g k ks w] by (intro exI [of _ w] exI [of _ ks] exI [of _ "[]"]) simp
  next
    case False
    let ?w' = "snd (processKey env g k' w)"
    from False Cons.prems have "k \<in> set ks" and "distinct ks" by simp_all
    from Cons.IH [OF this, of ?w'] obtain w1 ks2 es where
      a: "map_of (store w1) k = map_of (store ?w') k" and b: "trace w1 = trace ?w' @ es"
      and c: "k \<notin> set ks2"
      and d: "processKeys env g ks ?w' = processKeys env g ks2 (snd (processKey env g k w1))"
      by blast
    obtain es0 where e: "trace ?w' = trace w @ es0" using processKey_trace by blast
    have "map_of (store w1) k = map_of (store w) k"
      using a False by (simp add: processKey_store_other)
    moreover have "trace w1 = trace w @ (es0 @ es)" using b e by simp
    moreover have "processKeys env g (k' # ks) w = processKeys env g ks2 (snd (processKey env g k w1))"
      using d by (simp add: processKeys_Cons del: processKeys.simps(2))
    ultimately show ?thesis using c by blast
  qed
qed

text \<open>What the processing of one scanned key emits is part of what the loop emits.\<close>

lemma processKeys_event:
  assumes "k \<in> set ks" and "distinct ks"
    and step: "\<And>w1. map_of (store w1) k = map_of (store w) k \<Longrightarrow>
                 e \<in> set (events_since w1 (snd (processKey env g k w1)))"
  shows "e \<in> set (events_since w (snd (processKeys env g ks w)))"
proof -
  from processKeys_split [OF assms(1,2), of w env g] obtain w1 ks2 es where
    a: "map_of (store w1) k = map_of (store w) k" and b: "trace w1 = trace w @ es"
    and d: "processKeys env g ks w = processKeys env g ks2 (snd (processKey env g k w1))"
    by blast
  let ?w2 = "snd (processKey env g k w1)"
  obtain es2 where e2: "trace ?w2 = trace w1 @ es2" using processKey_trace by blast
  obtain es3 where e3: "trace (snd (processKeys env g ks2 ?w2)) = trace ?w2 @ es3"
    using processKeys_trace by blast
  from step [OF a] e2 have "e \<in> set es2" by simp
  moreover have "trace (snd (processKeys env g ks w)) = trace w @ (es @ es2 @ es3)"
    using b d e2 e3 by simp
  ultimately show ?thesis by simp
qed

lemma processKeys_deleted:
  assumes "k \<in> set ks" and "distinct ks"
    and step: "\<And>w1. map_of (store w1) k = map_of (store w) k \<Longrightarrow>
                 map_of (store (snd (processKey env g k w1))) k = None"
  shows "map_of (store (snd (processKeys env g ks w))) k = None"
proof -
  from processKeys_split [OF assms(1,2), of w env g] obtain w1 ks2 es where
    a: "map_of (store w1) k = map_of (store w) k"
    and d: "processKeys env g ks w = processKeys env g ks2 (snd (processKey env g k w1))"
    by blast
  from step [OF a] show ?thesis
    unfolding d by (rule processKeys_store_gone)
qed

lemma processKey_fetches:
  "RedisGet k \<in> set (events_since w (snd (processKey env g k w)))"
  unfolding key_defs events_since_def
  by (auto simp: prog_defs io_defs Let_def split: option.splits sum.splits prod.splits flow.splits if_splits)

lemma processKey_malformed:
  assumes "redis_get_ok env k" and "map_of (store w) k = Some v" and "v \<noteq> []"
    and "JSON_parse env v = None"
  shows "processKey env g k w =
    (Inr Next, w\<lparr>trace := trace w @ [RedisGet k, Log (ErrProcessingKey k SyntaxError)]\<rparr>)"
  using assms unfolding key_defs by (simp add: prog_defs io_defs)

lemma processKeys_kept:
  assumes "k \<in> set ks" and "distinct ks"
    and step: "\<And>w1. map_of (store w1) k = map_of (store w) k \<Longrightarrow>
                 map_of (store (snd (processKey env g k w1))) k = map_of (store w1) k"
  shows "map_of (store (snd (processKeys env g ks w))) k = map_of (store w) k"
proof -
  from processKeys_split [OF assms(1,2), of w env g] obtain w1 ks2 es where
    a: "map_of (store w1) k = map_of (store w) k" and c: "k \<notin> set ks2"
    and d: "processKeys env g ks w = processKeys env g ks2 (snd (processKey env g k w1))"
    by blast
  have "map_of (store (snd (processKeys env g ks w))) k
      = map_of (store (snd (processKey env g k w1))) k"
    unfolding d using c by (rule processKeys_store_other)
  with step [OF a] a show ?thesis by simp
qed

lemma distinct_scan_permissions: "distinct (scan_permissions s)"
  by (simp add: scan_permissions_def)

lemma processKey_bot:
  assumes "redis_get_ok env k" and "map_of (store w) k = Some v" and "v \<noteq> []"
    and "JSON_parse env v = Some data"
    and "getChatMember env g (userId_of k) = Some m"
    and "status m \<noteq> ''creator''" and "status m \<noteq> ''administrator''" and "is_bot (user m)"
  shows "BanChatMember g (userId_of k) \<in> set (events_since w (snd (processKey env g k w)))"
  using assms unfolding key_defs userId_of_def events_since_def
  by (simp add: prog_defs io_defs Let_def split: option.splits sum.splits prod.splits flow.splits if_splits)

lemma processKey_deletes:
  assumes "redis_get_ok env k" and "map_of (store w) k = Some v" and "v \<noteq> []"
    and "JSON_parse env v = Some data" and "redis_del_ok env k"
    and "getChatMember env g (userId_of k) = None
         \<or> (\<exists>m. getChatMember env g (userId_of k) = Some m
                \<and> status m \<noteq> ''creator'' \<and> status m \<noteq> ''administrator''
                \<and> (is_bot (user m) \<longrightarrow> \<not> banChatMember env g (userId_of k)))"
  shows "map_of (store (snd (processKey env g k w))) k = None"
  using assms unfolding key_defs userId_of_def
  by (auto simp: prog_defs io_defs Let_def delete_conv
      split: option.splits sum.splits prod.splits flow.splits if_splits)

lemma processKey_lookup_failure:
  assumes "redis_get_ok env k" and "map_of (store w) k = Some v" and "v \<noteq> []"
    and "JSON_parse env v = Some data"
    and "getChatMember env g (userId_of k) = None"
  shows "Log (ErrCheckingMember (userId_of k) TelegramError)
           \<in> set (events_since w (snd (processKey env g k w)))"
  using assms unfolding key_defs userId_of_def events_since_def
  by (simp add: prog_defs io_defs Let_def split: option.splits sum.splits prod.splits flow.splits if_splits)

subsection \<open>One tick\<close>

lemma tick_scans:
  assumes "setting_PRIVATE_GROUP_ID env = Some gid" and "gid \<noteq> []"
    and "queue_add_ok env" and "redis_keys_ok env"
  shows "tick env w =
    processKeys env (formatGroupId gid) (scan_permissions (store w))
      (w\<lparr>trace := trace w @
          [QueueAdd gid (now env), RedisKeys ''user:*:permissions'',
           Log (LogCheckingPermissions (length (scan_permissions (store w))) gid),
           Log (LogFormattedGroupId (formatGroupId gid))]\<rparr>)"
proof -
  let ?w0 = "w\<lparr>trace := trace w @
          [QueueAdd gid (now env), RedisKeys ''user:*:permissions'',
           Log (LogCheckingPermissions (length (scan_permissions (store w))) gid),
           Log (LogFormattedGroupId (formatGroupId gid))]\<rparr>"
  obtain r w' where run: "processKeys env (formatGroupId gid) (scan_permissions (store w)) ?w0 = (r, w')"
    by (cases "processKeys env (formatGroupId gid) (scan_permissions (store w)) ?w0")
  with processKeys_returns [of env "formatGroupId gid" "scan_permissions (store w)" ?w0]
  have "r = Inr ()" by simp
  with run assms show ?thesis
    by (simp add: tick_def tick_try_def prog_defs io_defs Let_def)
qed

lemma tick_no_scan:
  assumes "\<not> (\<exists>gid. setting_PRIVATE_GROUP_ID env = Some gid \<and> gid \<noteq> [] \<and> queue_add_ok env \<and> redis_keys_ok env)"
  shows "\<forall>e \<in> set (tick_events env w). \<not> (\<exists>g u. e = BanChatMember g u)"
  using assms unfolding tick_events_def tick_def tick_try_def events_since_def
  by (auto simp: prog_defs io_defs Let_def split: option.splits sum.splits prod.splits if_splits)

text \<open>The events of a tick that reaches the loop: four of its own, then the loop's.\<close>

lemma tick_events_scans:
  assumes "setting_PRIVATE_GROUP_ID env = Some gid" and "gid \<noteq> []"
    and "queue_add_ok env" and "redis_keys_ok env"
  shows "\<exists>w0. store w0 = store w \<and>
     tick env w = processKeys env (formatGroupId gid) (scan_permissions (store w)) w0 \<and>
     tick_events env w =
       [QueueAdd gid (now env), RedisKeys ''user:*:permissions'',
        Log (LogCheckingPermissions (length (scan_permissions (store w))) gid),
        Log (LogFormattedGroupId (formatGroupId gid))]
       @ events_since w0 (snd (processKeys env (formatGroupId gid) (scan_permissions (store w)) w0))"
proof -
  let ?pre = "[QueueAdd gid (now env), RedisKeys ''user:*:permissions'',
           Log (LogCheckingPermissions (length (scan_permissions (store w))) gid),
           Log (LogFormattedGroupId (formatGroupId gid))]"
  let ?w0 = "w\<lparr>trace := trace w @ ?pre\<rparr>"
  have t: "tick env w = processKeys env (formatGroupId gid) (scan_permissions (store w)) ?w0"
    by (rule tick_scans [OF assms])
  obtain es where es: "trace (snd (processKeys env (formatGroupId gid) (scan_permissions (store w)) ?w0))
      = trace ?w0 @ es"
    using processKeys_trace by blast
  have "tick_events env w = ?pre @ es"
    unfolding tick_events_def t using es by (simp add: events_since_def)
  moreover have "events_since ?w0 (snd (processKeys env (formatGroupId gid) (scan_permissions (store w)) ?w0)) = es"
    using es by (rule events_since_append)
  ultimately show ?thesis using t by (intro exI [of _ ?w0]) simp
qed

lemma tick_ban:
  assumes "BanChatMember g u \<in> set (tick_events env w)"
  shows "\<exists>m. getChatMember env g u = Some m \<and> status m \<noteq> ''creator'' \<and> status m \<noteq> ''administrator''"
proof (cases "\<exists>gid. setting_PRIVATE_GROUP_ID env = Some gid \<and> gid \<noteq> [] \<and> queue_add_ok env \<and> redis_keys_ok env")
  case True
  then obtain gid where "setting_PRIVATE_GROUP_ID env = Some gid" "gid \<noteq> []" "queue_add_ok env" "redis_keys_ok env"
    by blast
  from tick_events_scans [OF this, of w] assms obtain w0 where
    "BanChatMember g u \<in> set (events_since w0 (snd (processKeys env (formatGroupId gid) (scan_permissions (store w)) w0)))"
    by auto
  then show ?thesis using processKeys_ban by blast
next
  case False
  from tick_no_scan [OF this, of w] assms show ?thesis by blast
qed

subsection \<open>The service's constructor\<close>

text \<open>
  The constructor never throws. A destination that is not configured becomes the empty
  string, and while the subscriber connection answers the service ends up subscribed.
\<close>

lemma new_SentimentService_returns:
  "fst (new_SentimentService env w) =
     Inr \<lparr>privateGroupId = (case process_env_PRIVATE_GROUP_ID env of None \<Rightarrow> [] | Some s \<Rightarrow> s)\<rparr>"
  by (simp add: new_SentimentService_def setupSubscriber_def unawaited_def prog_defs Let_def)

lemma new_SentimentService_subscribes:
  assumes "subscriber_ok env"
  shows "''sentiment:updates'' \<in> set (channels (snd (new_SentimentService env w)))"
  using assms
  by (simp add: new_SentimentService_def setupSubscriber_def unawaited_def subscriber_subscribe_def
      prog_defs Let_def)

section \<open>The reconciliation tick\<close>

subsection \<open>C1: deletion of the scanned keys\<close>

text \<open>
  C1, counterexample. The record of user 666 is not JSON. It is there when the tick starts,
  \<open>JSON.parse\<close> throws inside the per-key \<open>try\<close>, whose \<open>catch\<close> logs and moves
  on without reaching \<open>redis.del\<close>: the key is still there, with the same value, when the
  tick completes. So it is not the case that every key present at the start is deleted
  whatever the per-key outcome.
\<close>

theorem tick_keeps_malformed_record:
  \<open>''user:666:permissions'' \<in> set (scan_permissions (store demo_world))
   \<and> JSON_parse demo_env ''{"hasRequiredBalance":'' = None
   \<and> map_of (store demo_world) ''user:666:permissions'' = Some ''{"hasRequiredBalance":''
   \<and> map_of (store (snd (tick demo_env demo_world))) ''user:666:permissions''
       = Some ''{"hasRequiredBalance":''\<close>
  by code_simp

text \<open>
  C1, as amended. In a tick whose destination group is configured and whose job submission
  and key scan succeed, every scanned key whose record is fetched, is not empty and parses,
  and whose \<open>DEL\<close> command is answered, is absent from the store when the tick completes,
  provided its processing does not leave the loop body early: the membership lookup fails,
  or the member is neither owner nor administrator and is not a bot whose removal
  succeeded. Whether a removal was needed, succeeded or failed makes no difference.
\<close>

theorem processed_records_deleted:
  assumes "setting_PRIVATE_GROUP_ID env = Some gid" and "gid \<noteq> []"
    and "queue_add_ok env" and "redis_keys_ok env"
    and "k \<in> set (scan_permissions (store w))"
    and "redis_get_ok env k" and "map_of (store w) k = Some v" and "v \<noteq> []"
    and "JSON_parse env v = Some data" and "redis_del_ok env k"
    and "getChatMember env (formatGroupId gid) (userId_of k) = None
         \<or> (\<exists>m. getChatMember env (formatGroupId gid) (userId_of k) = Some m
                \<and> status m \<noteq> ''creator'' \<and> status m \<noteq> ''administrator''
                \<and> (is_bot (user m) \<longrightarrow> \<not> banChatMember env (formatGroupId gid) (userId_of k)))"
  shows "map_of (store (snd (tick env w))) k = None"
proof -
  from tick_events_scans [OF assms(1-4), of w] obtain w0 where
    s: "store w0 = store w"
    and t: "tick env w = processKeys env (formatGroupId gid) (scan_permissions (store w)) w0"
    by blast
  have "map_of (store (snd (processKeys env (formatGroupId gid) (scan_permissions (store w)) w0))) k = None"
  proof (rule processKeys_deleted [OF assms(5) distinct_scan_permissions])
    fix w1 :: world assume "map_of (store w1) k = map_of (store w0) k"
    with s assms(7) have "map_of (store w1) k = Some v" by simp
    from processKey_deletes [OF assms(6) this assms(8-11)]
    show "map_of (store (snd (processKey env (formatGroupId gid) k w1))) k = None" .
  qed
  with t show ?thesis by simp
qed

text \<open>
  C1, witness: user 111 of the concrete deployment, an ordinary member without the required
  balance, is removed and the record is deleted.
\<close>

theorem processed_records_deleted_witness:
  "map_of (store (snd (tick demo_env demo_world))) ''user:111:permissions'' = None"
proof -
  have h1: "setting_PRIVATE_GROUP_ID demo_env = Some ''123456''" and h2: "''123456'' \<noteq> []"
    and h3: "queue_add_ok demo_env" and h4: "redis_keys_ok demo_env"
    and h5: "''user:111:permissions'' \<in> set (scan_permissions (store demo_world))"
    and h6: "redis_get_ok demo_env ''user:111:permissions''"
    and h10: "redis_del_ok demo_env ''user:111:permissions''"
    by code_simp+
  have h7: \<open>map_of (store demo_world) ''user:111:permissions'' = Some ''{"hasRequiredBalance":false}''\<close>
    and h8: \<open>''{"hasRequiredBalance":false}'' \<noteq> []\<close>
    and h9: \<open>JSON_parse demo_env ''{"hasRequiredBalance":false}''
              = Some (JObj [(''hasRequiredBalance'', JBool False)])\<close>
    by code_simp+
  have h11: "getChatMember demo_env (formatGroupId ''123456'') (userId_of ''user:111:permissions'') = None
     \<or> (\<exists>m. getChatMember demo_env (formatGroupId ''123456'') (userId_of ''user:111:permissions'') = Some m
            \<and> status m \<noteq> ''creator'' \<and> status m \<noteq> ''administrator''
            \<and> (is_bot (user m) \<longrightarrow>
                 \<not> banChatMember demo_env (formatGroupId ''123456'') (userId_of ''user:111:permissions'')))"
    by (simp add: demo_defs formatGroupId_def startsWith_def userId_of_def index_def)
  show ?thesis
    by (rule processed_records_deleted [OF h1 h2 h3 h4 h5 h6 h7 h8 h9 h10 h11])
qed

subsection \<open>C2: a membership lookup that fails\<close>

text \<open>
  C2, counterexample. The Telegram API rejects the lookup of user 555. The inner \<open>catch\<close>
  logs, control falls through to \<open>redis.del\<close>, and the record that was present at the
  start of the tick is gone at its end: it is not left in place for the next tick.
\<close>

theorem tick_deletes_record_after_failed_lookup:
  \<open>''user:555:permissions'' \<in> set (scan_permissions (store demo_world))
   \<and> getChatMember demo_env ''-100123456'' (Some ''555'') = None
   \<and> GetChatMember ''-100123456'' (Some ''555'') \<in> set (tick_events demo_env demo_world)
   \<and> map_of (store (snd (tick demo_env demo_world))) ''user:555:permissions'' = None\<close>
  by code_simp

text \<open>
  C2, as amended. For every scanned key whose record is fetched and parses and whose
  membership lookup fails, the tick logs the error, issues no removal call for that user,
  completes without a fault, and deletes the record in that same tick (when the \<open>DEL\<close>
  command is answered): the next scan does not see it again.
\<close>

theorem lookup_failure_logged_and_record_deleted:
  assumes "setting_PRIVATE_GROUP_ID env = Some gid" and "gid \<noteq> []"
    and "queue_add_ok env" and "redis_keys_ok env"
    and "k \<in> set (scan_permissions (store w))"
    and "redis_get_ok env k" and "map_of (store w) k = Some v" and "v \<noteq> []"
    and "JSON_parse env v = Some data" and "redis_del_ok env k"
    and "getChatMember env (formatGroupId gid) (userId_of k) = None"
  shows "Log (ErrCheckingMember (userId_of k) TelegramError) \<in> set (tick_events env w)
       \<and> BanChatMember (formatGroupId gid) (userId_of k) \<notin> set (tick_events env w)
       \<and> fst (tick env w) = Inr ()
       \<and> map_of (store (snd (tick env w))) k = None"
proof -
  from tick_events_scans [OF assms(1-4), of w] obtain w0 where
    s: "store w0 = store w"
    and t: "tick env w = processKeys env (formatGroupId gid) (scan_permissions (store w)) w0"
    and ev: "tick_events env w =
       [QueueAdd gid (now env), RedisKeys ''user:*:permissions'',
        Log (LogCheckingPermissions (length (scan_permissions (store w))) gid),
        Log (LogFormattedGroupId (formatGroupId gid))]
       @ events_since w0 (snd (processKeys env (formatGroupId gid) (scan_permissions (store w)) w0))"
    by blast
  have "Log (ErrCheckingMember (userId_of k) TelegramError)
      \<in> set (events_since w0 (snd (processKeys env (formatGroupId gid) (scan_permissions (store w)) w0)))"
  proof (rule processKeys_event [OF assms(5) distinct_scan_permissions])
    fix w1 :: world assume "map_of (store w1) k = map_of (store w0) k"
    with s assms(7) have "map_of (store w1) k = Some v" by simp
    from processKey_lookup_failure [OF assms(6) this assms(8,9,11)]
    show "Log (ErrCheckingMember (userId_of k) TelegramError)
      \<in> set (events_since w1 (snd (processKey env (formatGroupId gid) k w1)))" .
  qed
  with ev have logged: "Log (ErrCheckingMember (userId_of k) TelegramError) \<in> set (tick_events env w)"
    by simp
  have no_ban: "BanChatMember (formatGroupId gid) (userId_of k) \<notin> set (tick_events env w)"
    using tick_ban [of "formatGroupId gid" "userId_of k" env w] assms(11) by auto
  have returns: "fst (tick env w) = Inr ()"
    unfolding t by (rule processKeys_returns)
  have "map_of (store (snd (processKeys env (formatGroupId gid) (scan_permissions (store w)) w0))) k = None"
  proof (rule processKeys_deleted [OF assms(5) distinct_scan_permissions])
    fix w1 :: world assume "map_of (store w1) k = map_of (store w0) k"
    with s assms(7) have "map_of (store w1) k = Some v" by simp
    from processKey_deletes [OF assms(6) this assms(8-10)] assms(11)
    show "map_of (store (snd (processKey env (formatGroupId gid) k w1))) k = None" by simp
  qed
  with t have "map_of (store (snd (tick env w))) k = None" by simp
  with logged no_ban returns show ?thesis by simp
qed

text \<open>
  C2, witness: user 555 of the concrete deployment.
\<close>

theorem lookup_failure_witness:
  "Log (ErrCheckingMember (Some ''555'') TelegramError) \<in> set (tick_events demo_env demo_world)
   \<and> BanChatMember ''-100123456'' (Some ''555'') \<notin> set (tick_events demo_env demo_world)
   \<and> fst (tick demo_env demo_world) = Inr ()
   \<and> map_of (store (snd (tick demo_env demo_world))) ''user:555:permissions'' = None"
proof -
  have h1: "setting_PRIVATE_GROUP_ID demo_env = Some ''123456''" and h2: "''123456'' \<noteq> []"
    and h3: "queue_add_ok demo_env" and h4: "redis_keys_ok demo_env"
    and h5: "''user:555:permissions'' \<in> set (scan_permissions (store demo_world))"
    and h6: "redis_get_ok demo_env ''user:555:permissions''"
    and h10: "redis_del_ok demo_env ''user:555:permissions''"
    and h11: "getChatMember demo_env (formatGroupId ''123456'') (userId_of ''user:555:permissions'') = None"
    by code_simp+
  have h7: \<open>map_of (store demo_world) ''user:555:permissions'' = Some ''{"hasRequiredBalance":true}''\<close>
    and h8: \<open>''{"hasRequiredBalance":true}'' \<noteq> []\<close>
    and h9: \<open>JSON_parse demo_env ''{"hasRequiredBalance":true}''
              = Some (JObj [(''hasRequiredBalance'', JBool True)])\<close>
    by code_simp+
  have u: "userId_of ''user:555:permissions'' = Some ''555''"
    and g: "formatGroupId ''123456'' = ''-100123456''"
    by code_simp+
  show ?thesis
    using lookup_failure_logged_and_record_deleted [OF h1 h2 h3 h4 h5 h6 h7 h8 h9 h10 h11]
    unfolding u g .
qed

subsection \<open>C3: a job submission that fails\<close>

text \<open>
  C3, counterexample. With the queue unreachable the rejection of \<open>queue.add\<close> is caught
  by the \<open>catch\<close> of the whole callback: the tick consists of the submission and one
  error line. No \<open>KEYS\<close> command, no \<open>GET\<close>, and the six records are untouched.
\<close>

theorem tick_without_queue_scans_nothing:
  \<open>\<not> queue_add_ok (demo_env\<lparr>queue_add_ok := False\<rparr>)
   \<and> tick_events (demo_env\<lparr>queue_add_ok := False\<rparr>) demo_world
       = [QueueAdd ''123456'' 1700, Log (ErrPermissionCheck QueueError)]
   \<and> store (snd (tick (demo_env\<lparr>queue_add_ok := False\<rparr>) demo_world)) = store demo_world\<close>
  by code_simp

text \<open>
  C3, as amended. If submitting the job fails, the failure is caught and logged by the
  handler of the whole tick and no fault leaves the timer callback, but the tick ends
  there: no key is scanned or processed and the store is as it was.
\<close>

theorem queue_failure_ends_tick:
  assumes "setting_PRIVATE_GROUP_ID env = Some gid" and "gid \<noteq> []" and "\<not> queue_add_ok env"
  shows "tick env w =
    (Inr (), w\<lparr>trace := trace w @ [QueueAdd gid (now env), Log (ErrPermissionCheck QueueError)]\<rparr>)"
  using assms by (simp add: tick_def tick_try_def prog_defs io_defs Let_def)

text \<open>
  C3, witness: the concrete deployment with an unreachable queue.
\<close>

theorem queue_failure_witness:
  "tick (demo_env\<lparr>queue_add_ok := False\<rparr>) demo_world =
     (Inr (), demo_world\<lparr>trace := [QueueAdd ''123456'' 1700, Log (ErrPermissionCheck QueueError)]\<rparr>)"
proof -
  have h1: "setting_PRIVATE_GROUP_ID (demo_env\<lparr>queue_add_ok := False\<rparr>) = Some ''123456''"
    and h2: "''123456'' \<noteq> []"
    and h3: "\<not> queue_add_ok (demo_env\<lparr>queue_add_ok := False\<rparr>)"
    by (simp_all add: demo_env_def)
  show ?thesis
    using queue_failure_ends_tick [OF h1 h2 h3, of demo_world]
    by (simp add: demo_env_def demo_world_def)
qed

subsection \<open>C4: owners and administrators\<close>

text \<open>
  C4. If the membership lookup of a user reports the role \<open>creator\<close> or
  \<open>administrator\<close>, the tick issues no removal call for that user, whatever the store
  holds (in particular a record with \<open>hasRequiredBalance = false\<close>).
\<close>

theorem exempt_roles_never_removed:
  assumes "getChatMember env g u = Some m"
    and "status m = ''creator'' \<or> status m = ''administrator''"
  shows "BanChatMember g u \<notin> set (tick_events env w)"
  using tick_ban [of g u env w] assms by auto

text \<open>
  C4, witness: user 333 of the concrete deployment is an administrator whose record says
  \<open>hasRequiredBalance = false\<close>.
\<close>

theorem exempt_roles_witness:
  "BanChatMember ''-100123456'' (Some ''333'') \<notin> set (tick_events demo_env demo_world)"
proof -
  have h1: "getChatMember demo_env ''-100123456'' (Some ''333'')
      = Some \<lparr>status = ''administrator'', user = \<lparr>is_bot = False\<rparr>\<rparr>"
    by (simp add: demo_env_def demo_members_def)
  have h2: "status \<lparr>status = ''administrator'', user = \<lparr>is_bot = False\<rparr>\<rparr> = ''creator''
      \<or> status \<lparr>status = ''administrator'', user = \<lparr>is_bot = False\<rparr>\<rparr> = ''administrator''"
    by simp
  show ?thesis by (rule exempt_roles_never_removed [OF h1 h2])
qed

subsection \<open>C5: bots\<close>

text \<open>
  C5. In a tick that reaches the loop, for every scanned key whose record is fetched and
  parses (to any value at all) and whose membership lookup reports a bot that is neither
  owner nor administrator, a removal call is issued for that user.
\<close>

theorem bot_always_removed:
  assumes "setting_PRIVATE_GROUP_ID env = Some gid" and "gid \<noteq> []"
    and "queue_add_ok env" and "redis_keys_ok env"
    and "k \<in> set (scan_permissions (store w))"
    and "redis_get_ok env k" and "map_of (store w) k = Some v" and "v \<noteq> []"
    and "JSON_parse env v = Some data"
    and "getChatMember env (formatGroupId gid) (userId_of k) = Some m"
    and "status m \<noteq> ''creator''" and "status m \<noteq> ''administrator''" and "is_bot (user m)"
  shows "BanChatMember (formatGroupId gid) (userId_of k) \<in> set (tick_events env w)"
proof -
  from tick_events_scans [OF assms(1-4), of w] obtain w0 where
    s: "store w0 = store w"
    and ev: "tick_events env w =
       [QueueAdd gid (now env), RedisKeys ''user:*:permissions'',
        Log (LogCheckingPermissions (length (scan_permissions (store w))) gid),
        Log (LogFormattedGroupId (formatGroupId gid))]
       @ events_since w0 (snd (processKeys env (formatGroupId gid) (scan_permissions (store w)) w0))"
    by blast
  have "BanChatMember (formatGroupId gid) (userId_of k)
      \<in> set (events_since w0 (snd (processKeys env (formatGroupId gid) (scan_permissions (store w)) w0)))"
  proof (rule processKeys_event [OF assms(5) distinct_scan_permissions])
    fix w1 :: world assume "map_of (store w1) k = map_of (store w0) k"
    with s assms(7) have "map_of (store w1) k = Some v" by simp
    from processKey_bot [OF assms(6) this assms(8-13)]
    show "BanChatMember (formatGroupId gid) (userId_of k)
      \<in> set (events_since w1 (snd (processKey env (formatGroupId gid) k w1)))" .
  qed
  with ev show ?thesis by simp
qed

text \<open>
  C5, witness: user 444 of the concrete deployment is a bot whose record says
  \<open>hasRequiredBalance = true\<close>.
\<close>

theorem bot_witness:
  "BanChatMember ''-100123456'' (Some ''444'') \<in> set (tick_events demo_env demo_world)"
proof -
  let ?m = "\<lparr>status = ''member'', user = \<lparr>is_bot = True\<rparr>\<rparr>"
  have h1: "setting_PRIVATE_GROUP_ID demo_env = Some ''123456''" and h2: "''123456'' \<noteq> []"
    and h3: "queue_add_ok demo_env" and h4: "redis_keys_ok demo_env"
    and h5: "''user:444:permissions'' \<in> set (scan_permissions (store demo_world))"
    and h6: "redis_get_ok demo_env ''user:444:permissions''"
    by code_simp+
  have h7: \<open>map_of (store demo_world) ''user:444:permissions'' = Some ''{"hasRequiredBalance":true}''\<close>
    and h8: \<open>''{"hasRequiredBalance":true}'' \<noteq> []\<close>
    and h9: \<open>JSON_parse demo_env ''{"hasRequiredBalance":true}''
              = Some (JObj [(''hasRequiredBalance'', JBool True)])\<close>
    by code_simp+
  have u: "userId_of ''user:444:permissions'' = Some ''444''"
    and g: "formatGroupId ''123456'' = ''-100123456''"
    by code_simp+
  have h10: "getChatMember demo_env (formatGroupId ''123456'') (userId_of ''user:444:permissions'') = Some ?m"
    unfolding u g by (simp add: demo_env_def demo_members_def)
  have h11: "status ?m \<noteq> ''creator''" and h12: "status ?m \<noteq> ''administrator''"
    and h13: "is_bot (user ?m)"
    by simp_all
  show ?thesis
    using bot_always_removed [OF h1 h2 h3 h4 h5 h6 h7 h8 h9 h10 h11 h12 h13]
    unfolding u g .
qed

section \<open>The sentiment fan-out\<close>

subsection \<open>C6: suppressed batches\<close>

text \<open>
  C6. If no destination group is configured, or the batch has
  \<open>metadata.significantTweetsCount === 0\<close>, then \<open>broadcastUpdate\<close> sends no message, and
  neither does the listener for an inbound message that parses to that batch.
\<close>

theorem no_broadcast_without_significant_items_or_destination:
  assumes "privateGroupId this = []
      \<or> (\<exists>metadata. getProp update ''metadata'' = Inr metadata
            \<and> getProp metadata ''significantTweetsCount'' = Inr (JNum 0))"
  shows "(\<forall>g t. SendMessage g t \<notin> set (events_since w (snd (broadcastUpdate env this update w))))
       \<and> (JSON_parse env message = Some update \<longrightarrow>
            (\<forall>g t. SendMessage g t \<notin> set (events_since w (snd (onMessage env this channel message w)))))"
  using assms unfolding onMessage_def broadcastUpdate_def events_since_def
  by (auto simp: prog_defs io_defs Let_def split: option.splits sum.splits prod.splits if_splits)

text \<open>
  C6, witness: a batch with no significant tweet arrives at the concrete deployment.
\<close>

theorem no_broadcast_witness:
  \<open>(\<forall>g t. SendMessage g t \<notin> set (events_since demo_world
        (snd (onMessage demo_env demo_service ''sentiment:updates''
               ''{"metadata":{"significantTweetsCount":0}}'' demo_world))))\<close>
proof -
  let ?update = "JObj [(''metadata'', JObj [(''significantTweetsCount'', JNum 0)])]"
  have h: "privateGroupId demo_service = []
      \<or> (\<exists>metadata. getProp ?update ''metadata'' = Inr metadata
            \<and> getProp metadata ''significantTweetsCount'' = Inr (JNum 0))"
    by (simp add: getProp_def)
  have p: \<open>JSON_parse demo_env ''{"metadata":{"significantTweetsCount":0}}'' = Some ?update\<close>
    by code_simp
  show ?thesis
    using no_broadcast_without_significant_items_or_destination [OF h,
        of demo_world demo_env \<open>''{"metadata":{"significantTweetsCount":0}}''\<close> "''sentiment:updates''"] p
    by blast
qed

subsection \<open>C7: the destination identifier\<close>

text \<open>
  C7, counterexample. \<open>"1-2"\<close> does not start with \<open>"-100"\<close> and has no leading sign,
  yet \<open>replace("-", "")\<close> removes its inner dash: the result is \<open>"-10012"\<close>, not the
  prefix followed by the identifier.
\<close>

theorem formatGroupId_inner_dash:
  "\<not> startsWith ''1-2'' ''-100''
   \<and> formatGroupId ''1-2'' = ''-10012''
   \<and> ''-100'' @ strip_leading_sign ''1-2'' = ''-1001-2''"
  by code_simp

text \<open>
  C7, as amended. An identifier that starts with \<open>"-100"\<close> is returned unchanged. Any
  other identifier gets \<open>"-100"\<close> prepended after its first \<open>"-"\<close>, wherever it occurs,
  has been removed; when no \<open>"-"\<close> occurs after the first character, as in every decimal
  chat id, that is the identifier with its leading sign stripped.
\<close>

theorem formatGroupId_normalizes:
  "(startsWith s ''-100'' \<longrightarrow> formatGroupId s = s)
   \<and> (\<not> startsWith s ''-100'' \<longrightarrow> formatGroupId s = ''-100'' @ replace_first s ''-'' '''')
   \<and> (\<not> startsWith s ''-100'' \<and> CHR ''-'' \<notin> set (tl s) \<longrightarrow>
        formatGroupId s = ''-100'' @ strip_leading_sign s)"
proof (cases "startsWith s ''-100''")
  case True
  then show ?thesis by (simp add: formatGroupId_def)
next
  case False
  then have general: "formatGroupId s = ''-100'' @ replace_first s ''-'' []"
    by (simp add: formatGroupId_def)
  show ?thesis
  proof (cases "CHR ''-'' \<in> set (tl s)")
    case True
    with False general show ?thesis by simp
  next
    case no_inner_dash: False
    then have "replace_first s ''-'' [] = strip_leading_sign s"
      by (rule replace_first_leading_sign)
    with False general show ?thesis by simp
  qed
qed

text \<open>
  C7, witness: an identifier with the prefix, a bare number, and a negative number.
\<close>

theorem formatGroupId_witness:
  "formatGroupId ''-100123456'' = ''-100123456'' \<and> formatGroupId ''123456'' = ''-100123456''
   \<and> formatGroupId ''-123456'' = ''-100123456''"
proof -
  have a: "startsWith ''-100123456'' ''-100''"
    and b: "\<not> startsWith ''123456'' ''-100'' \<and> CHR ''-'' \<notin> set (tl ''123456'')"
    and c: "\<not> startsWith ''-123456'' ''-100'' \<and> CHR ''-'' \<notin> set (tl ''-123456'')"
    by (simp_all add: startsWith_def)
  show ?thesis
    using formatGroupId_normalizes [of "''-100123456''"] formatGroupId_normalizes [of "''123456''"]
      formatGroupId_normalizes [of "''-123456''"] a b c
    by (simp add: strip_leading_sign_def startsWith_def)
qed

subsection \<open>C8: malformed JSON\<close>

text \<open>
  C8. No fault ever leaves the timer callback. In a tick that reaches the loop, a scanned
  key whose stored record \<open>JSON.parse\<close> rejects has its error logged during that tick,
  every scanned key is still fetched in that tick, and the rejected record is in the store,
  unchanged, when the tick completes. The iteration for such a key consists of one \<open>GET\<close>
  and one error line and ends normally. A message on \<open>sentiment:updates\<close> that
  \<open>JSON.parse\<close> rejects makes the listener log one error line and return normally, with the
  store and the subscription as they were.
\<close>

theorem malformed_json_is_contained:
  "fst (tick env w) = Inr ()
   \<and> (setting_PRIVATE_GROUP_ID env = Some gid \<and> gid \<noteq> [] \<and> queue_add_ok env \<and> redis_keys_ok env
        \<and> k \<in> set (scan_permissions (store w))
        \<and> redis_get_ok env k \<and> map_of (store w) k = Some v \<and> v \<noteq> [] \<and> JSON_parse env v = None \<longrightarrow>
        Log (ErrProcessingKey k SyntaxError) \<in> set (tick_events env w)
        \<and> (\<forall>k' \<in> set (scan_permissions (store w)). RedisGet k' \<in> set (tick_events env w))
        \<and> map_of (store (snd (tick env w))) k = Some v)
   \<and> (redis_get_ok env k \<and> map_of (store w) k = Some v \<and> v \<noteq> [] \<and> JSON_parse env v = None \<longrightarrow>
        processKey env g k w =
        (Inr Next, w\<lparr>trace := trace w @ [RedisGet k, Log (ErrProcessingKey k SyntaxError)]\<rparr>))
   \<and> (JSON_parse env message = None \<longrightarrow>
        onMessage env this ''sentiment:updates'' message w =
        (Inr (), w\<lparr>trace := trace w @ [Log (ErrProcessingSentiment SyntaxError)]\<rparr>))"
proof (intro conjI impI)
  show "fst (tick env w) = Inr ()"
    unfolding tick_def by (auto simp: prog_defs split: prod.splits sum.splits)
next
  assume h: "setting_PRIVATE_GROUP_ID env = Some gid \<and> gid \<noteq> [] \<and> queue_add_ok env \<and> redis_keys_ok env
        \<and> k \<in> set (scan_permissions (store w))
        \<and> redis_get_ok env k \<and> map_of (store w) k = Some v \<and> v \<noteq> [] \<and> JSON_parse env v = None"
  then have scans: "setting_PRIVATE_GROUP_ID env = Some gid" "gid \<noteq> []" "queue_add_ok env" "redis_keys_ok env"
    and k: "k \<in> set (scan_permissions (store w))"
    and bad: "redis_get_ok env k" "map_of (store w) k = Some v" "v \<noteq> []" "JSON_parse env v = None"
    by simp_all
  let ?g = "formatGroupId gid" and ?ks = "scan_permissions (store w)"
  from tick_events_scans [OF scans, of w] obtain w0 where
    s: "store w0 = store w"
    and t: "tick env w = processKeys env ?g ?ks w0"
    and ev: "tick_events env w =
       [QueueAdd gid (now env), RedisKeys ''user:*:permissions'',
        Log (LogCheckingPermissions (length ?ks) gid),
        Log (LogFormattedGroupId ?g)]
       @ events_since w0 (snd (processKeys env ?g ?ks w0))"
    by blast
  have step: "processKey env ?g k w1 =
      (Inr Next, w1\<lparr>trace := trace w1 @ [RedisGet k, Log (ErrProcessingKey k SyntaxError)]\<rparr>)"
    if "map_of (store w1) k = map_of (store w0) k" for w1 :: world
  proof -
    from that s bad(2) have "map_of (store w1) k = Some v" by simp
    from processKey_malformed [OF bad(1) this bad(3,4)] show ?thesis .
  qed
  have "Log (ErrProcessingKey k SyntaxError) \<in> set (events_since w0 (snd (processKeys env ?g ?ks w0)))"
  proof (rule processKeys_event [OF k distinct_scan_permissions])
    fix w1 :: world assume "map_of (store w1) k = map_of (store w0) k"
    from step [OF this]
    show "Log (ErrProcessingKey k SyntaxError) \<in> set (events_since w1 (snd (processKey env ?g k w1)))"
      by (simp add: events_since_def)
  qed
  with ev show "Log (ErrProcessingKey k SyntaxError) \<in> set (tick_events env w)" by simp
  show "\<forall>k' \<in> set ?ks. RedisGet k' \<in> set (tick_events env w)"
  proof
    fix k' assume k': "k' \<in> set ?ks"
    have "RedisGet k' \<in> set (events_since w0 (snd (processKeys env ?g ?ks w0)))"
      by (rule processKeys_event [OF k' distinct_scan_permissions]) (rule processKey_fetches)
    with ev show "RedisGet k' \<in> set (tick_events env w)" by simp
  qed
  have "map_of (store (snd (processKeys env ?g ?ks w0))) k = map_of (store w0) k"
  proof (rule processKeys_kept [OF k distinct_scan_permissions])
    fix w1 :: world assume "map_of (store w1) k = map_of (store w0) k"
    from step [OF this]
    show "map_of (store (snd (processKey env ?g k w1))) k = map_of (store w1) k" by simp
  qed
  with t s bad(2) show "map_of (store (snd (tick env w))) k = Some v" by simp
next
  assume "redis_get_ok env k \<and> map_of (store w) k = Some v \<and> v \<noteq> [] \<and> JSON_parse env v = None"
  then show "processKey env g k w =
      (Inr Next, w\<lparr>trace := trace w @ [RedisGet k, Log (ErrProcessingKey k SyntaxError)]\<rparr>)"
    by (simp add: processKey_malformed)
next
  assume "JSON_parse env message = None"
  then show "onMessage env this ''sentiment:updates'' message w =
        (Inr (), w\<lparr>trace := trace w @ [Log (ErrProcessingSentiment SyntaxError)]\<rparr>)"
    by (simp add: onMessage_def prog_defs io_defs)
qed

text \<open>
  C8, witness: with the keys in the opposite order the truncated record of user 666 is
  scanned first; its error is logged, the last key (user 111) is still fetched, and a
  truncated batch is logged by the listener.
\<close>

theorem malformed_json_witness:
  \<open>hd (scan_permissions (store demo_world_reversed)) = ''user:666:permissions''
   \<and> fst (tick demo_env demo_world_reversed) = Inr ()
   \<and> Log (ErrProcessingKey ''user:666:permissions'' SyntaxError)
       \<in> set (tick_events demo_env demo_world_reversed)
   \<and> RedisGet ''user:111:permissions''
       \<in> set (tick_events demo_env demo_world_reversed)
   \<and> map_of (store (snd (tick demo_env demo_world_reversed)))
        ''user:666:permissions'' = Some ''{"hasRequiredBalance":''
   \<and> processKey demo_env ''-100123456'' ''user:666:permissions'' demo_world_reversed =
       (Inr Next, demo_world_reversed\<lparr>
          trace := [RedisGet ''user:666:permissions'',
                    Log (ErrProcessingKey ''user:666:permissions'' SyntaxError)]\<rparr>)
   \<and> onMessage demo_env demo_service ''sentiment:updates'' ''{"metadata":''
        demo_world_reversed =
       (Inr (), demo_world_reversed\<lparr>
          trace := [Log (ErrProcessingSentiment SyntaxError)]\<rparr>)\<close>
proof -
  let ?w = demo_world_reversed
  have first: "hd (scan_permissions (store ?w)) = ''user:666:permissions''"
    by code_simp
  have h: \<open>setting_PRIVATE_GROUP_ID demo_env = Some ''123456'' \<and> ''123456'' \<noteq> []
      \<and> queue_add_ok demo_env \<and> redis_keys_ok demo_env
      \<and> ''user:666:permissions'' \<in> set (scan_permissions (store ?w))
      \<and> redis_get_ok demo_env ''user:666:permissions''
      \<and> map_of (store ?w) ''user:666:permissions'' = Some ''{"hasRequiredBalance":''
      \<and> ''{"hasRequiredBalance":'' \<noteq> []
      \<and> JSON_parse demo_env ''{"hasRequiredBalance":'' = None\<close>
    by code_simp
  have other: "''user:111:permissions'' \<in> set (scan_permissions (store ?w))"
    by code_simp
  have p: \<open>JSON_parse demo_env ''{"metadata":'' = None\<close>
    by code_simp
  have tr: "trace ?w = []" by (simp add: demo_world_reversed_def demo_world_def)
  show ?thesis
    using malformed_json_is_contained [of demo_env ?w "''123456''" "''user:666:permissions''"
        \<open>''{"hasRequiredBalance":''\<close> "''-100123456''"
        \<open>''{"metadata":''\<close> demo_service] h other p first
    by (auto simp: tr)
qed

subsection \<open>C9: stopping twice\<close>

text \<open>
  C9. While the subscriber connection answers, \<open>stop\<close> returns without error, a second
  \<open>stop\<close> right after it returns without error as well and leaves the subscriptions as
  the first one left them, without \<open>sentiment:updates\<close>; and a \<open>stop\<close> when that channel
  is not subscribed leaves the subscriptions unchanged.
\<close>

theorem stop_idempotent:
  assumes "subscriber_ok env"
  shows "fst (stop env w) = Inr ()
       \<and> fst (stop env (snd (stop env w))) = Inr ()
       \<and> channels (snd (stop env (snd (stop env w)))) = channels (snd (stop env w))
       \<and> ''sentiment:updates'' \<notin> set (channels (snd (stop env w)))
       \<and> (''sentiment:updates'' \<notin> set (channels w) \<longrightarrow> channels (snd (stop env w)) = channels w)"
  using assms by (simp add: stop_def subscriber_unsubscribe_def prog_defs)

text \<open>
  C9, witness: the concrete deployment, subscribed to \<open>sentiment:updates\<close>, stopped twice.
\<close>

theorem stop_idempotent_witness:
  "fst (stop demo_env (snd (stop demo_env demo_world))) = Inr ()
   \<and> channels (snd (stop demo_env (snd (stop demo_env demo_world)))) = []
   \<and> channels (snd (stop demo_env demo_world)) = []"
proof -
  have h: "subscriber_ok demo_env" by (simp add: demo_env_def)
  have c: "channels (snd (stop demo_env demo_world)) = []"
    by code_simp
  show ?thesis
    using stop_idempotent [OF h, of demo_world] c by simp
qed

subsection \<open>C10: other channels\<close>

text \<open>
  C10. A message on any channel other than \<open>sentiment:updates\<close> is dropped by the
  listener: it returns at once, and the world (store, subscriptions and calls made) is
  unchanged whatever \<open>JSON.parse\<close> would make of the payload.
\<close>

theorem other_channels_ignored:
  assumes "channel \<noteq> ''sentiment:updates''"
  shows "onMessage env this channel message w = (Inr (), w)"
  using assms by (simp add: onMessage_def done_with_def)

text \<open>
  C10, witness: a well-formed batch delivered on another channel.
\<close>

theorem other_channels_witness:
  \<open>onMessage demo_env demo_service ''balance:updates'' ''{"metadata":{"significantTweetsCount":2}}'' demo_world
     = (Inr (), demo_world)\<close>
proof -
  have h: "''balance:updates'' \<noteq> ''sentiment:updates''" by simp
  show ?thesis by (rule other_channels_ignored [OF h])
qed

end
